theory Spec2Isabelle
  imports Main "HOL-Library.AList"
begin

section \<open>Python values, types and exceptions\<close>

text \<open>
  The source is \<^verbatim>\<open>pytorch_lightning/utilities/apply_func.py\<close>: the recursive helper
  \<^verbatim>\<open>apply_to_collection\<close> (the spec's \<^verbatim>\<open>map_collection\<close>) and its specialisation
  \<^verbatim>\<open>transfer_batch_to_device\<close> (the spec's \<^verbatim>\<open>move_batch_to_device\<close>).

  The code is dynamically typed, so the embedding fixes a universe of Python values.
  Every container carries its concrete type, because the code rebuilds a container by
  calling \<^verbatim>\<open>type(data)\<close>:
  \<^item> \<open>MapV\<close>: an instance of \<^verbatim>\<open>collections.Mapping\<close> (a \<^verbatim>\<open>dict\<close>, an
    \<^verbatim>\<open>OrderedDict\<close> or a \<^verbatim>\<open>defaultdict\<close>) with its items in iteration order;
  \<^item> \<open>NamedTupV\<close>: an instance of a \<^verbatim>\<open>namedtuple\<close> class (its type name, its
    \<^verbatim>\<open>_fields\<close> and its elements);
  \<^item> \<open>SeqV\<close>: the other non-string instances of \<^verbatim>\<open>collections.Sequence\<close>: a
    \<^verbatim>\<open>list\<close>, a plain \<^verbatim>\<open>tuple\<close>, or a \<^verbatim>\<open>range\<close> (given by the elements its
    iteration yields);
  \<^item> \<open>StrV\<close>: a \<^verbatim>\<open>str\<close>, which Python also counts as a \<^verbatim>\<open>Sequence\<close>;
  \<^item> \<open>IntV\<close>, \<open>NoneV\<close>, \<open>TensorV\<close> (a \<^verbatim>\<open>torch.Tensor\<close>: its device and a payload),
    and \<open>ObjV\<close> (an object of any other class, by the class name).
  User-defined container classes, whose constructors and iteration are arbitrary code, are
  outside this universe; so is a sequence whose iteration yields a value equal to itself,
  such as \<^verbatim>\<open>collections.UserString('a')\<close>, on which the code behaves as C9 below describes.
  Values are finite trees: a container that contains itself is not modelled. The
  interpreter's limit on the depth of recursion is the subject of
  \<open>apply_to_collection_limited\<close> below. The second argument of \<^verbatim>\<open>isinstance\<close> is taken
  to be what \<^verbatim>\<open>isinstance\<close> accepts, a type or a tuple of types. The module imports
  \<^verbatim>\<open>Mapping\<close> and \<^verbatim>\<open>Sequence\<close> from \<^verbatim>\<open>collections\<close>, which the Python
  versions before 3.10 provide.
\<close>

datatype pyexc = TypeError | ValueError | RuntimeError | AttributeError | RecursionError

datatype map_type = Cdict | COrderedDict | Cdefaultdict

datatype seq_type = Clist | Ctuple | Crange

type_synonym device = string

datatype pyval =
    IntV int
  | StrV string
  | NoneV
  | TensorV device "int list"
  | ObjV string
  | MapV map_type "(pyval \<times> pyval) list"
  | NamedTupV string "string list" "pyval list"
  | SeqV seq_type "pyval list"

text \<open>
  The types \<^verbatim>\<open>isinstance\<close> is asked about: the concrete classes of the values above, the
  two abstract base classes the code imports, and \<^verbatim>\<open>object\<close>. \<open>supertypes t\<close> lists
  every class \<open>c\<close> with \<^verbatim>\<open>issubclass(t, c)\<close>, registrations with the abstract base
  classes included. The second argument of \<^verbatim>\<open>isinstance\<close> is a type or a tuple of types:
  a list here.
\<close>

datatype pytype =
    Tobject | Tint | Tstr | TNoneType | TTensor | Tclass string
  | TMapping | Tdict | TOrderedDict | Tdefaultdict
  | TSequence | Ttuple | Tnamedtuple string | Tlist | Trange

fun type_of :: "pyval \<Rightarrow> pytype" where
  "type_of (IntV i) = Tint"
| "type_of (StrV s) = Tstr"
| "type_of NoneV = TNoneType"
| "type_of (TensorV dev payload) = TTensor"
| "type_of (ObjV cls) = Tclass cls"
| "type_of (MapV Cdict kvs) = Tdict"
| "type_of (MapV COrderedDict kvs) = TOrderedDict"
| "type_of (MapV Cdefaultdict kvs) = Tdefaultdict"
| "type_of (NamedTupV name fields xs) = Tnamedtuple name"
| "type_of (SeqV Clist xs) = Tlist"
| "type_of (SeqV Ctuple xs) = Ttuple"
| "type_of (SeqV Crange xs) = Trange"

fun supertypes :: "pytype \<Rightarrow> pytype list" where
  "supertypes Tobject = [Tobject]"
| "supertypes Tstr = [Tstr, TSequence, Tobject]"
| "supertypes Tdict = [Tdict, TMapping, Tobject]"
| "supertypes TOrderedDict = [TOrderedDict, Tdict, TMapping, Tobject]"
| "supertypes Tdefaultdict = [Tdefaultdict, Tdict, TMapping, Tobject]"
| "supertypes Ttuple = [Ttuple, TSequence, Tobject]"
| "supertypes (Tnamedtuple name) = [Tnamedtuple name, Ttuple, TSequence, Tobject]"
| "supertypes Tlist = [Tlist, TSequence, Tobject]"
| "supertypes Trange = [Trange, TSequence, Tobject]"
| "supertypes t = [t, Tobject]"

definition isinstance :: "pyval \<Rightarrow> pytype list \<Rightarrow> bool" where
  "isinstance data dtype = (\<exists>t\<in>set dtype. t \<in> set (supertypes (type_of data)))"

text \<open>\<^verbatim>\<open>hasattr(data, '_fields')\<close>: in this universe only named tuples have the attribute.\<close>

fun hasattr_fields :: "pyval \<Rightarrow> bool" where
  "hasattr_fields (NamedTupV name fields xs) = True"
| "hasattr_fields v = False"

section \<open>Effects: exceptions and the state of the callables\<close>

text \<open>
  A Python call may raise and may have side effects. A computation takes the state the
  caller-supplied function works on and returns the new state with either the exception
  raised (\<open>Inl\<close>) or the value returned (\<open>Inr\<close>). An exception ends the computation:
  \<open>py_bind\<close> runs nothing after it.
\<close>

type_synonym ('s, 'a) py = "'s \<Rightarrow> (pyexc + 'a) \<times> 's"

definition py_return :: "'a \<Rightarrow> ('s, 'a) py" where
  "py_return x = (\<lambda>s. (Inr x, s))"

definition py_result :: "pyexc + 'a \<Rightarrow> ('s, 'a) py" where
  "py_result r = (\<lambda>s. (r, s))"

definition py_bind :: "('s, 'a) py \<Rightarrow> ('a \<Rightarrow> ('s, 'b) py) \<Rightarrow> ('s, 'b) py" where
  "py_bind m k = (\<lambda>s. case m s of (Inl e, s') \<Rightarrow> (Inl e, s') | (Inr x, s') \<Rightarrow> k x s')"

text \<open>
  The list comprehension \<^verbatim>\<open>[g(d) for d in xs]\<close> (and the generator that
  \<^verbatim>\<open>elem_type(*(...))\<close> unpacks): the elements are mapped from left to right.
\<close>

fun list_comp :: "('a \<Rightarrow> ('s, 'b) py) \<Rightarrow> 'a list \<Rightarrow> ('s, 'b list) py" where
  "list_comp g [] = py_return []"
| "list_comp g (x # xs) =
     py_bind (g x) (\<lambda>y. py_bind (list_comp g xs) (\<lambda>ys. py_return (y # ys)))"

text \<open>
  The dict comprehension \<^verbatim>\<open>{k: g(v) for k, v in items}\<close>, building the new dict in
  \<open>acc\<close>: a key seen before keeps its position and takes the new value, a new key goes
  to the end, which is what \<open>AList.update\<close> does.
\<close>

fun dict_comp ::
  "('a \<Rightarrow> ('s, 'b) py) \<Rightarrow> ('k \<times> 'a) list \<Rightarrow> ('k \<times> 'b) list \<Rightarrow> ('s, ('k \<times> 'b) list) py" where
  "dict_comp g [] acc = py_return acc"
| "dict_comp g ((k, v) # kvs) acc =
     py_bind (g v) (\<lambda>r. dict_comp g kvs (AList.update k r acc))"

lemma list_comp_cong [fundef_cong]:
  "xs = ys \<Longrightarrow> (\<And>x. x \<in> set ys \<Longrightarrow> g x = h x) \<Longrightarrow> list_comp g xs = list_comp h ys"
  by (induction ys arbitrary: xs) auto

lemma dict_comp_cong [fundef_cong]:
  "kvs = kvs' \<Longrightarrow> acc = acc' \<Longrightarrow> (\<And>k v. (k, v) \<in> set kvs' \<Longrightarrow> g v = h v)
    \<Longrightarrow> dict_comp g kvs acc = dict_comp h kvs' acc'"
proof (induction kvs' arbitrary: kvs acc acc')
  case Nil
  then show ?case by simp
next
  case (Cons p kvs')
  obtain k v where p: "p = (k, v)" by (cases p)
  have gv: "g v = h v" using Cons.prems(3) [of k v] p by simp
  have tl: "g v' = h v'" if "(k', v') \<in> set kvs'" for k' v'
    using Cons.prems(3) [of k' v'] that by simp
  have rest: "dict_comp g kvs' a = dict_comp h kvs' a" for a
    using Cons.IH [OF refl refl] tl by blast
  show ?case using Cons.prems(1,2) p gv rest by simp
qed

section \<open>The constructors the code calls to rebuild a container\<close>

text \<open>
  \<^verbatim>\<open>elem_type({...})\<close> for a mapping type called with one dict: \<^verbatim>\<open>dict\<close> and
  \<^verbatim>\<open>OrderedDict\<close> copy the items; \<^verbatim>\<open>defaultdict\<close> takes its first argument for the
  default factory and raises \<^verbatim>\<open>TypeError\<close> (first argument must be callable or None).
\<close>

fun construct_mapping :: "map_type \<Rightarrow> (pyval \<times> pyval) list \<Rightarrow> pyexc + pyval" where
  "construct_mapping Cdict d = Inr (MapV Cdict d)"
| "construct_mapping COrderedDict d = Inr (MapV COrderedDict d)"
| "construct_mapping Cdefaultdict d = Inl TypeError"

text \<open>
  \<^verbatim>\<open>elem_type(*ys)\<close> for a namedtuple class: one positional argument for each field,
  \<^verbatim>\<open>TypeError\<close> otherwise.
\<close>

fun construct_namedtuple :: "string \<Rightarrow> string list \<Rightarrow> pyval list \<Rightarrow> pyexc + pyval" where
  "construct_namedtuple name fields ys =
     (if length ys = length fields then Inr (NamedTupV name fields ys) else Inl TypeError)"

text \<open>
  \<^verbatim>\<open>elem_type([...])\<close> for a sequence type called with one list: \<^verbatim>\<open>list\<close> and
  \<^verbatim>\<open>tuple\<close> take the elements of the list; \<^verbatim>\<open>range\<close> raises \<^verbatim>\<open>TypeError\<close> (a list
  cannot be interpreted as an integer).
\<close>

fun construct_sequence :: "seq_type \<Rightarrow> pyval list \<Rightarrow> pyexc + pyval" where
  "construct_sequence Clist ys = Inr (SeqV Clist ys)"
| "construct_sequence Ctuple ys = Inr (SeqV Ctuple ys)"
| "construct_sequence Crange ys = Inl TypeError"

section \<open>The source functions\<close>

text \<open>
  \<^verbatim>\<open>apply_to_collection(data, dtype, function, *args, **kwargs)\<close>, branch by branch in
  the order of the source:
  \<^enum> \<^verbatim>\<open>isinstance(data, dtype)\<close>: return \<^verbatim>\<open>function(data, *args, **kwargs)\<close>;
  \<^enum> \<^verbatim>\<open>isinstance(data, Mapping)\<close> (a \<open>MapV\<close>): the dict comprehension over
    \<^verbatim>\<open>data.items()\<close>, handed to \<^verbatim>\<open>elem_type\<close>;
  \<^enum> \<^verbatim>\<open>isinstance(data, tuple) and hasattr(data, '_fields')\<close> (a \<open>NamedTupV\<close>): the
    mapped elements, handed to \<^verbatim>\<open>elem_type\<close> one by one;
  \<^enum> \<^verbatim>\<open>isinstance(data, Sequence) and not isinstance(data, str)\<close> (a \<open>SeqV\<close>): the
    list of the mapped elements, handed to \<^verbatim>\<open>elem_type\<close>;
  \<^enum> anything else, a \<open>StrV\<close> included: \<^verbatim>\<open>return data\<close>.
  In each container branch \<open>elem_type\<close> is \<^verbatim>\<open>type(data)\<close>.
\<close>

type_synonym 's pyfunction = "pyval \<Rightarrow> pyval list \<Rightarrow> (string \<times> pyval) list \<Rightarrow> ('s, pyval) py"

fun apply_to_collection ::
  "pyval \<Rightarrow> pytype list \<Rightarrow> 's pyfunction \<Rightarrow> pyval list \<Rightarrow> (string \<times> pyval) list \<Rightarrow> ('s, pyval) py"
  where
  "apply_to_collection data dtype function args kwargs =
     (if isinstance data dtype then function data args kwargs
      else (case data of
          MapV elem_type kvs \<Rightarrow>
            py_bind
              (dict_comp (\<lambda>v. apply_to_collection v dtype function args kwargs) kvs [])
              (\<lambda>d. py_result (construct_mapping elem_type d))
        | NamedTupV name fields xs \<Rightarrow>
            py_bind
              (list_comp (\<lambda>d. apply_to_collection d dtype function args kwargs) xs)
              (\<lambda>ys. py_result (construct_namedtuple name fields ys))
        | SeqV elem_type xs \<Rightarrow>
            py_bind
              (list_comp (\<lambda>d. apply_to_collection d dtype function args kwargs) xs)
              (\<lambda>ys. py_result (construct_sequence elem_type ys))
        | _ \<Rightarrow> py_return data))"

declare apply_to_collection.simps [simp del]

text \<open>
  \<open>apply_to_collection\<close> above runs on an interpreter whose call stack has no bound. The
  Python interpreter bounds the depth of its call stack and raises \<^verbatim>\<open>RecursionError\<close>
  in the call that would exceed it. \<open>apply_to_collection_limited stack\<close> is the same
  function on such an interpreter: \<open>stack\<close> is the number of nested calls of
  \<^verbatim>\<open>apply_to_collection\<close> that the recursion limit still allows where the call is made
  (each call takes its own frame and, in the Python versions the module runs on, one more
  for its comprehension). With no call left the call raises; otherwise the body is the
  body of the source, and its recursive calls have one call less.
\<close>

fun apply_to_collection_limited ::
  "nat \<Rightarrow> pyval \<Rightarrow> pytype list \<Rightarrow> 's pyfunction \<Rightarrow> pyval list \<Rightarrow> (string \<times> pyval) list
     \<Rightarrow> ('s, pyval) py"
  where
  "apply_to_collection_limited 0 data dtype function args kwargs =
     py_result (Inl RecursionError)"
| "apply_to_collection_limited (Suc stack) data dtype function args kwargs =
     (if isinstance data dtype then function data args kwargs
      else (case data of
          MapV elem_type kvs \<Rightarrow>
            py_bind
              (dict_comp
                (\<lambda>v. apply_to_collection_limited stack v dtype function args kwargs) kvs [])
              (\<lambda>d. py_result (construct_mapping elem_type d))
        | NamedTupV name fields xs \<Rightarrow>
            py_bind
              (list_comp
                (\<lambda>d. apply_to_collection_limited stack d dtype function args kwargs) xs)
              (\<lambda>ys. py_result (construct_namedtuple name fields ys))
        | SeqV elem_type xs \<Rightarrow>
            py_bind
              (list_comp
                (\<lambda>d. apply_to_collection_limited stack d dtype function args kwargs) xs)
              (\<lambda>ys. py_result (construct_sequence elem_type ys))
        | _ \<Rightarrow> py_return data))"

declare apply_to_collection_limited.simps [simp del]

text \<open>
  \<^verbatim>\<open>transfer_batch_to_device(batch, device)\<close>. The local function \<^verbatim>\<open>to\<close> takes one
  argument and calls \<^verbatim>\<open>tensor.to(device, non_blocking=True)\<close>; that method belongs to
  torch, so it is the parameter \<open>Tensor_to\<close> (tensor, device, non-blocking flag).
\<close>

definition to :: "(pyval \<Rightarrow> device \<Rightarrow> bool \<Rightarrow> ('s, pyval) py) \<Rightarrow> device \<Rightarrow> 's pyfunction" where
  "to Tensor_to device tensor args kwargs =
     (if args = [] \<and> kwargs = [] then Tensor_to tensor device True
      else py_result (Inl TypeError))"

definition transfer_batch_to_device ::
  "(pyval \<Rightarrow> device \<Rightarrow> bool \<Rightarrow> ('s, pyval) py) \<Rightarrow> pyval \<Rightarrow> device \<Rightarrow> ('s, pyval) py" where
  "transfer_batch_to_device Tensor_to batch device =
     apply_to_collection batch [TTensor] (to Tensor_to device) [] []"

section \<open>Notions the claims are stated with\<close>

text \<open>
  The values the code recurses on when \<open>data\<close> is not a leaf: the values of a mapping,
  the elements of a named tuple or of another sequence. Strings and the other atoms
  have none.
\<close>

fun children :: "pyval \<Rightarrow> pyval list" where
  "children (MapV elem_type kvs) = map snd kvs"
| "children (NamedTupV name fields xs) = xs"
| "children (SeqV elem_type xs) = xs"
| "children v = []"

text \<open>A child is a strictly smaller value.\<close>

lemma size_children: "x \<in> set (children data) \<Longrightarrow> size x < size data"
proof (cases data)
  case (MapV c kvs)
  assume "x \<in> set (children data)"
  then obtain k where "(k, x) \<in> set kvs" using MapV by auto
  then have "size x < Suc (size_list (size_prod size size) kvs)"
    by (induction kvs) auto
  then show ?thesis using MapV by simp
next
  case (NamedTupV n fs xs)
  assume "x \<in> set (children data)"
  then have "x \<in> set xs" using NamedTupV by simp
  then have "size x < Suc (size_list size xs)" by (induction xs) auto
  then show ?thesis using NamedTupV by simp
next
  case (SeqV c xs)
  assume "x \<in> set (children data)"
  then have "x \<in> set xs" using SeqV by simp
  then have "size x < Suc (size_list size xs)" by (induction xs) auto
  then show ?thesis using SeqV by simp
qed auto

text \<open>
  The sub-values the traversal hands to \<^verbatim>\<open>function\<close>, in the order it reaches them: the
  traversal stops at a value that matches \<open>dtype\<close> and descends into the containers
  that do not.
\<close>

fun leaves :: "pytype list \<Rightarrow> pyval \<Rightarrow> pyval list" where
  "leaves dtype (MapV c kvs) =
     (if isinstance (MapV c kvs) dtype then [MapV c kvs]
      else concat (map (\<lambda>(k, v). leaves dtype v) kvs))"
| "leaves dtype (NamedTupV n fs xs) =
     (if isinstance (NamedTupV n fs xs) dtype then [NamedTupV n fs xs]
      else concat (map (leaves dtype) xs))"
| "leaves dtype (SeqV c xs) =
     (if isinstance (SeqV c xs) dtype then [SeqV c xs]
      else concat (map (leaves dtype) xs))"
| "leaves dtype v = (if isinstance v dtype then [v] else [])"

text \<open>
  The value of the same container shape as \<open>data\<close> in which every leaf \<open>v\<close> reached is
  replaced by \<open>h v\<close> and everything else stays as it is.
\<close>

fun map_leaves :: "pytype list \<Rightarrow> (pyval \<Rightarrow> pyval) \<Rightarrow> pyval \<Rightarrow> pyval" where
  "map_leaves dtype h (MapV c kvs) =
     (if isinstance (MapV c kvs) dtype then h (MapV c kvs)
      else MapV c (map (\<lambda>(k, v). (k, map_leaves dtype h v)) kvs))"
| "map_leaves dtype h (NamedTupV n fs xs) =
     (if isinstance (NamedTupV n fs xs) dtype then h (NamedTupV n fs xs)
      else NamedTupV n fs (map (map_leaves dtype h) xs))"
| "map_leaves dtype h (SeqV c xs) =
     (if isinstance (SeqV c xs) dtype then h (SeqV c xs)
      else SeqV c (map (map_leaves dtype h) xs))"
| "map_leaves dtype h v = (if isinstance v dtype then h v else v)"

text \<open>
  Every container the traversal rebuilds has a type whose constructor accepts the rebuilt
  arguments: no \<^verbatim>\<open>defaultdict\<close>, no \<^verbatim>\<open>range\<close>, and a named tuple has one element
  for each field.
\<close>

fun constructors_accept :: "pytype list \<Rightarrow> pyval \<Rightarrow> bool" where
  "constructors_accept dtype (MapV c kvs) =
     (if isinstance (MapV c kvs) dtype then True
      else c \<noteq> Cdefaultdict \<and> list_all (\<lambda>(k, v). constructors_accept dtype v) kvs)"
| "constructors_accept dtype (NamedTupV n fs xs) =
     (if isinstance (NamedTupV n fs xs) dtype then True
      else length xs = length fs \<and> list_all (constructors_accept dtype) xs)"
| "constructors_accept dtype (SeqV c xs) =
     (if isinstance (SeqV c xs) dtype then True
      else c \<noteq> Crange \<and> list_all (constructors_accept dtype) xs)"
| "constructors_accept dtype v = True"

text \<open>Every mapping the traversal rebuilds has distinct keys, as every Python mapping has.\<close>

fun distinct_keys :: "pytype list \<Rightarrow> pyval \<Rightarrow> bool" where
  "distinct_keys dtype (MapV c kvs) =
     (if isinstance (MapV c kvs) dtype then True
      else distinct (map fst kvs) \<and> list_all (\<lambda>(k, v). distinct_keys dtype v) kvs)"
| "distinct_keys dtype (NamedTupV n fs xs) =
     (if isinstance (NamedTupV n fs xs) dtype then True
      else list_all (distinct_keys dtype) xs)"
| "distinct_keys dtype (SeqV c xs) =
     (if isinstance (SeqV c xs) dtype then True
      else list_all (distinct_keys dtype) xs)"
| "distinct_keys dtype v = True"

text \<open>
  The number of nested calls of \<^verbatim>\<open>apply_to_collection\<close> that the traversal of
  \<open>data\<close> needs: one for a value that is a leaf or has no children, and one more than
  its deepest child needs otherwise.
\<close>

fun calls_needed :: "pytype list \<Rightarrow> pyval \<Rightarrow> nat" where
  "calls_needed dtype (MapV c kvs) =
     (if isinstance (MapV c kvs) dtype then 1
      else Suc (fold max (map (\<lambda>(k, v). calls_needed dtype v) kvs) 0))"
| "calls_needed dtype (NamedTupV n fs xs) =
     (if isinstance (NamedTupV n fs xs) dtype then 1
      else Suc (fold max (map (calls_needed dtype) xs) 0))"
| "calls_needed dtype (SeqV c xs) =
     (if isinstance (SeqV c xs) dtype then 1
      else Suc (fold max (map (calls_needed dtype) xs) 0))"
| "calls_needed dtype v = 1"

text \<open>
  \<open>same_shape P dtype data r\<close>: the value \<open>r\<close> has the container shape of \<open>data\<close>.
  Where the traversal of \<open>data\<close> reaches a leaf \<open>v\<close>, \<open>r\<close> holds a value \<open>v'\<close> with
  \<open>P v v'\<close>; a container of \<open>data\<close> that is not a leaf is in \<open>r\<close> a container of the same
  concrete type (with the same keys in the same order, or the same fields) and as many
  children, each of the same shape in turn; and anything else is the same in both.
\<close>

fun same_node :: "pyval \<Rightarrow> pyval \<Rightarrow> bool" where
  "same_node (MapV c kvs) r =
     (case r of MapV c' kvs' \<Rightarrow> c' = c \<and> map fst kvs' = map fst kvs | _ \<Rightarrow> False)"
| "same_node (NamedTupV n fs xs) r =
     (case r of NamedTupV n' fs' ys \<Rightarrow> n' = n \<and> fs' = fs | _ \<Rightarrow> False)"
| "same_node (SeqV c xs) r = (case r of SeqV c' ys \<Rightarrow> c' = c | _ \<Rightarrow> False)"
| "same_node v r = (r = v)"

function same_shape :: "(pyval \<Rightarrow> pyval \<Rightarrow> bool) \<Rightarrow> pytype list \<Rightarrow> pyval \<Rightarrow> pyval \<Rightarrow> bool" where
  "same_shape P dtype data r =
     (if isinstance data dtype then P data r
      else same_node data r \<and> list_all2 (same_shape P dtype) (children data) (children r))"
  by pat_completeness auto
termination
  by (relation "measure (\<lambda>(P, dtype, data, r). size data)") (auto simp: size_children)

declare same_shape.simps [simp del]

text \<open>
  How a run ends when the value it returns is left aside: with which exception or by
  returning, and in which state.
\<close>

definition outcome :: "(pyexc + 'a) \<times> 's \<Rightarrow> (pyexc + unit) \<times> 's" where
  "outcome run = (case run of (Inl e, s) \<Rightarrow> (Inl e, s) | (Inr r, s) \<Rightarrow> (Inr (), s))"

text \<open>
  What \<^verbatim>\<open>type(data)\<close> makes of the mapped children \<open>rs\<close> of a container \<open>data\<close>: the
  three constructor calls of the source in one function.
\<close>

definition rebuild :: "pyval \<Rightarrow> pyval list \<Rightarrow> pyexc + pyval" where
  "rebuild data rs =
     (case data of
        MapV c kvs \<Rightarrow>
          construct_mapping c (fold (\<lambda>(k, r). AList.update k r) (zip (map fst kvs) rs) [])
      | NamedTupV n fs xs \<Rightarrow> construct_namedtuple n fs rs
      | SeqV c xs \<Rightarrow> construct_sequence c rs
      | _ \<Rightarrow> Inr data)"

section \<open>Functions for the examples\<close>

text \<open>
  A Python lambda of one integer argument, such as \<^verbatim>\<open>lambda x: x * 2\<close>, used on integers
  only: it has no side effect, and a call with further arguments raises \<^verbatim>\<open>TypeError\<close>.
\<close>

definition int_lambda :: "(int \<Rightarrow> int) \<Rightarrow> 's pyfunction" where
  "int_lambda body x args kwargs =
     (case x of
        IntV n \<Rightarrow>
          if args = [] \<and> kwargs = [] then py_return (IntV (body n))
          else py_result (Inl TypeError)
      | _ \<Rightarrow> py_result (Inl TypeError))"

definition times_ten :: "'s pyfunction" where
  "times_ten = int_lambda (\<lambda>x. x * 10)"

definition double :: "'s pyfunction" where
  "double = int_lambda (\<lambda>x. x * 2)"

text \<open>A value inside \<open>n\<close> lists, one in the other: \<^verbatim>\<open>[[...[v]...]]\<close>.\<close>

fun nested :: "nat \<Rightarrow> pyval \<Rightarrow> pyval" where
  "nested 0 v = v"
| "nested (Suc n) v = SeqV Clist [nested n v]"

text \<open>A function that raises \<^verbatim>\<open>ValueError\<close> on a negative integer and returns its argument otherwise.\<close>

definition reject_negative :: "'s pyfunction" where
  "reject_negative x args kwargs =
     (case x of
        IntV n \<Rightarrow> if n < 0 then py_result (Inl ValueError) else py_return (IntV n)
      | _ \<Rightarrow> py_return x)"

text \<open>A function without side effects that never raises and ignores further arguments.\<close>

definition pure_function :: "(pyval \<Rightarrow> pyval) \<Rightarrow> 's pyfunction" where
  "pure_function h x args kwargs = py_return (h x)"

text \<open>
  A function instrumented with a log of its calls: the state gains the list of the
  arguments the function has been called on, oldest first, whatever the call returns or
  raises.
\<close>

definition logged :: "'s pyfunction \<Rightarrow> (pyval list \<times> 's) pyfunction" where
  "logged f x args kwargs =
     (\<lambda>(log, s). case f x args kwargs s of (r, s') \<Rightarrow> (r, (log @ [x], s')))"

text \<open>
  Modelled from the spec: the tensor runtime's primitive "move this tensor to \<open>device\<close>,
  optionally non-blocking" (\<^verbatim>\<open>torch.Tensor.to\<close>, an external collaborator that is not
  part of the sources). The tensor returned reports the target device and holds the same
  payload; the state of the runtime is the list of the transfers requested so far, each
  with its device and its non-blocking flag.
\<close>

definition torch_to :: "pyval \<Rightarrow> device \<Rightarrow> bool \<Rightarrow> ((device \<times> bool) list, pyval) py" where
  "torch_to tensor device non_blocking =
     (case tensor of
        TensorV dev payload \<Rightarrow>
          (\<lambda>requests. (Inr (TensorV device payload), requests @ [(device, non_blocking)]))
      | _ \<Rightarrow> py_result (Inl AttributeError))"

section \<open>Lemmas about the model\<close>

lemma children_induct [case_names step]:
  assumes "\<And>data. (\<And>x. x \<in> set (children data) \<Longrightarrow> P x) \<Longrightarrow> P data"
  shows "P data"
proof (induction data rule: measure_induct_rule [where f = size])
  case (less data)
  show ?case by (rule assms) (simp add: less size_children)
qed


lemma dict_comp_list_comp:
  "dict_comp g kvs acc s =
    (case list_comp g (map snd kvs) s of
       (Inl e, s') \<Rightarrow> (Inl e, s')
     | (Inr rs, s') \<Rightarrow>
         (Inr (fold (\<lambda>(k, r). AList.update k r) (zip (map fst kvs) rs) acc), s'))"
proof (induction kvs arbitrary: acc s)
  case Nil
  show ?case by (simp add: py_return_def)
next
  case (Cons p kvs)
  obtain k v where p: "p = (k, v)" by (cases p)
  show ?case
    by (simp add: p py_bind_def py_return_def Cons.IH split: prod.splits sum.splits)
qed

lemma apply_to_collection_children:
  assumes "\<not> isinstance data dtype"
  shows "apply_to_collection data dtype f a k s =
     (case list_comp (\<lambda>d. apply_to_collection d dtype f a k) (children data) s of
        (Inl e, s') \<Rightarrow> (Inl e, s')
      | (Inr rs, s') \<Rightarrow> (rebuild data rs, s'))"
  using assms
  by (cases data)
    (simp_all add: apply_to_collection.simps rebuild_def py_bind_def py_result_def
      py_return_def dict_comp_list_comp split: prod.splits sum.splits)

lemma list_comp_length:
  "list_comp g xs s = (Inr ys, s') \<Longrightarrow> length ys = length xs"
  by (induction xs arbitrary: ys s)
    (auto simp: py_bind_def py_return_def split: prod.splits sum.splits)

lemma list_comp_failure:
  "list_comp g xs s = (Inl e, s') \<Longrightarrow> \<exists>x\<in>set xs. \<exists>s0. g x s0 = (Inl e, s')"
  by (induction xs arbitrary: s)
    (auto simp: py_bind_def py_return_def split: prod.splits sum.splits)

lemma list_comp_all_succeed:
  assumes "\<And>x s. x \<in> set xs \<Longrightarrow> g x s = (Inr (p x), u s x)"
  shows "list_comp g xs s = (Inr (map p xs), foldl u s xs)"
  using assms
  by (induction xs arbitrary: s) (simp_all add: py_bind_def py_return_def)

lemma update_fresh: "k \<notin> fst ` set al \<Longrightarrow> AList.update k v al = al @ [(k, v)]"
  by (induction al) auto

lemma fold_update_distinct:
  "distinct ks \<Longrightarrow> set ks \<inter> fst ` set acc = {} \<Longrightarrow>
     fold (\<lambda>(k, r). AList.update k r) (zip ks rs) acc = acc @ zip ks rs"
proof (induction ks arbitrary: rs acc)
  case Nil
  show ?case by simp
next
  case (Cons k ks)
  show ?case
  proof (cases rs)
    case Nil
    then show ?thesis by simp
  next
    case (Cons r rs')
    have fresh: "k \<notin> fst ` set acc" using Cons.prems(2) by auto
    have disj: "set ks \<inter> fst ` set (acc @ [(k, r)]) = {}"
      using Cons.prems by auto
    have "distinct ks" using Cons.prems(1) by simp
    from Cons.IH [OF this disj, of rs'] show ?thesis
      by (simp add: Cons update_fresh [OF fresh])
  qed
qed

lemma zip_fst_map_snd: "zip (map fst kvs) (map (g \<circ> snd) kvs) = map (\<lambda>(k, v). (k, g v)) kvs"
  by (induction kvs) auto

lemma leaves_children:
  "\<not> isinstance data dtype \<Longrightarrow> leaves dtype data = concat (map (leaves dtype) (children data))"
  by (cases data) (simp_all add: comp_def case_prod_unfold)

lemma constructors_accept_children:
  "\<not> isinstance data dtype \<Longrightarrow> constructors_accept dtype data \<Longrightarrow> x \<in> set (children data)
    \<Longrightarrow> constructors_accept dtype x"
  by (cases data) (auto simp: list_all_iff)

lemma distinct_keys_children:
  "\<not> isinstance data dtype \<Longrightarrow> distinct_keys dtype data \<Longrightarrow> x \<in> set (children data)
    \<Longrightarrow> distinct_keys dtype x"
  by (cases data) (auto simp: list_all_iff)

lemma rebuild_map_leaves:
  assumes "\<not> isinstance data dtype" "constructors_accept dtype data" "distinct_keys dtype data"
  shows "rebuild data (map (map_leaves dtype h) (children data)) = Inr (map_leaves dtype h data)"
proof (cases data)
  case (MapV c kvs)
  have "fold (\<lambda>(k, r). AList.update k r) (zip (map fst kvs) (map (map_leaves dtype h) (map snd kvs))) []
      = zip (map fst kvs) (map (map_leaves dtype h) (map snd kvs))"
    using assms MapV by (subst fold_update_distinct) simp_all
  then show ?thesis using assms MapV
    by (cases c) (simp_all add: rebuild_def zip_fst_map_snd)
next
  case (NamedTupV n fs xs)
  then show ?thesis using assms by (simp add: rebuild_def)
next
  case (SeqV c xs)
  then show ?thesis using assms by (cases c) (simp_all add: rebuild_def)
qed (use assms in \<open>simp_all add: rebuild_def\<close>)

lemma foldl_concat_leaves:
  "foldl u s (concat (map q xs)) = foldl (\<lambda>s x. foldl u s (q x)) s xs"
  by (induction xs arbitrary: s) simp_all

lemma apply_to_collection_total:
  assumes f: "\<And>v s. isinstance v dtype \<Longrightarrow> f v a k s = (Inr (h v), u s v)"
  shows "constructors_accept dtype data \<Longrightarrow> distinct_keys dtype data \<Longrightarrow>
     apply_to_collection data dtype f a k s =
       (Inr (map_leaves dtype h data), foldl u s (leaves dtype data))"
proof (induction data arbitrary: s rule: children_induct)
  case (step data)
  show ?case
  proof (cases "isinstance data dtype")
    case True
    then show ?thesis by (cases data) (simp_all add: apply_to_collection.simps f)
  next
    case False
    have "list_comp (\<lambda>d. apply_to_collection d dtype f a k) (children data) s =
        (Inr (map (map_leaves dtype h) (children data)),
         foldl (\<lambda>s x. foldl u s (leaves dtype x)) s (children data))"
      by (rule list_comp_all_succeed)
        (simp add: step.IH constructors_accept_children [OF False step.prems(1)]
          distinct_keys_children [OF False step.prems(2)])
    then show ?thesis
      by (simp add: apply_to_collection_children [OF False]
          rebuild_map_leaves [OF False step.prems] leaves_children [OF False]
          foldl_concat_leaves)
  qed
qed

lemma list_comp_success_elems:
  "list_comp g xs s = (Inr ys, s') \<Longrightarrow> x \<in> set xs \<Longrightarrow> \<exists>s0 y s1. g x s0 = (Inr y, s1)"
  by (induction xs arbitrary: ys s)
    (auto simp: py_bind_def py_return_def split: prod.splits sum.splits)

lemma rebuild_accepts:
  assumes "\<not> isinstance data dtype" "rebuild data rs = Inr r" "length rs = length (children data)"
    "\<And>x. x \<in> set (children data) \<Longrightarrow> constructors_accept dtype x"
  shows "constructors_accept dtype data"
proof (cases data)
  case (MapV c kvs)
  then show ?thesis using assms by (cases c) (force simp: rebuild_def list_all_iff)+
next
  case (NamedTupV n fs xs)
  then show ?thesis using assms by (auto simp: rebuild_def list_all_iff split: if_splits)
next
  case (SeqV c xs)
  then show ?thesis using assms by (cases c) (auto simp: rebuild_def list_all_iff)
qed simp_all

lemma success_constructors_accept:
  "apply_to_collection data dtype f a k s = (Inr r, s') \<Longrightarrow> constructors_accept dtype data"
proof (induction data arbitrary: s r s' rule: children_induct)
  case (step data)
  show ?case
  proof (cases "isinstance data dtype")
    case True
    then show ?thesis by (cases data) simp_all
  next
    case False
    obtain rs where lc: "list_comp (\<lambda>d. apply_to_collection d dtype f a k) (children data) s = (Inr rs, s')"
      and rb: "rebuild data rs = Inr r"
      using step.prems by (auto simp: apply_to_collection_children [OF False] split: prod.splits sum.splits)
    have len: "length rs = length (children data)" using list_comp_length [OF lc] .
    have "constructors_accept dtype x" if "x \<in> set (children data)" for x
      using list_comp_success_elems [OF lc that] step.IH [OF that] by blast
    then show ?thesis using rebuild_accepts [OF False rb len] by blast
  qed
qed

lemma leaves_subset_children:
  "\<not> isinstance data dtype \<Longrightarrow> x \<in> set (children data) \<Longrightarrow> set (leaves dtype x) \<subseteq> set (leaves dtype data)"
  by (auto simp: leaves_children)

lemma leaves_self: "isinstance data dtype \<Longrightarrow> leaves dtype data = [data]"
  by (cases data) simp_all

lemma failure_origin:
  "apply_to_collection data dtype f a k s = (Inl e, s') \<Longrightarrow>
     (\<exists>v\<in>set (leaves dtype data). \<exists>s0. f v a k s0 = (Inl e, s'))
     \<or> (e = TypeError \<and> \<not> constructors_accept dtype data)"
proof (induction data arbitrary: s rule: children_induct)
  case (step data)
  show ?case
  proof (cases "isinstance data dtype")
    case True
    then have "f data a k s = (Inl e, s')" using step.prems by (simp add: apply_to_collection.simps)
    then show ?thesis using True by (auto simp: leaves_self)
  next
    case False
    show ?thesis
    proof (cases "list_comp (\<lambda>d. apply_to_collection d dtype f a k) (children data) s")
      case (Pair res s1)
      show ?thesis
      proof (cases res)
        case (Inl e1)
        then have lc: "list_comp (\<lambda>d. apply_to_collection d dtype f a k) (children data) s = (Inl e, s')"
          using step.prems Pair by (simp add: apply_to_collection_children [OF False])
        obtain x s0 where x: "x \<in> set (children data)"
          and fail: "apply_to_collection x dtype f a k s0 = (Inl e, s')"
          using list_comp_failure [OF lc] by blast
        from step.IH [OF x fail] show ?thesis
        proof
          assume "\<exists>v\<in>set (leaves dtype x). \<exists>s0. f v a k s0 = (Inl e, s')"
          then show ?thesis using leaves_subset_children [OF False x] by blast
        next
          assume "e = TypeError \<and> \<not> constructors_accept dtype x"
          then show ?thesis using constructors_accept_children [OF False _ x] by blast
        qed
      next
        case (Inr rs)
        then have rb: "rebuild data rs = Inl e"
          using step.prems Pair by (simp add: apply_to_collection_children [OF False])
        have len: "length rs = length (children data)" using Pair Inr by (auto dest: list_comp_length)
        have "e = TypeError \<and> \<not> constructors_accept dtype data"
        proof (cases data)
          case (MapV c kvs)
          then show ?thesis using rb False by (cases c) (auto simp: rebuild_def)
        next
          case (NamedTupV n fs xs)
          then show ?thesis using rb False len by (auto simp: rebuild_def split: if_splits)
        next
          case (SeqV c xs)
          then show ?thesis using rb False by (cases c) (auto simp: rebuild_def)
        qed (use rb in \<open>simp_all add: rebuild_def\<close>)
        then show ?thesis by blast
      qed
    qed
  qed
qed

text \<open>
  The unfolding of \<open>apply_to_collection\<close> on each kind of value, for evaluating it on
  concrete inputs.
\<close>

lemma apply_to_collection_eval:
  "apply_to_collection (IntV i) dtype f a k =
     (if isinstance (IntV i) dtype then f (IntV i) a k else py_return (IntV i))"
  "apply_to_collection (StrV str) dtype f a k =
     (if isinstance (StrV str) dtype then f (StrV str) a k else py_return (StrV str))"
  "apply_to_collection NoneV dtype f a k =
     (if isinstance NoneV dtype then f NoneV a k else py_return NoneV)"
  "apply_to_collection (TensorV dev p) dtype f a k =
     (if isinstance (TensorV dev p) dtype then f (TensorV dev p) a k
      else py_return (TensorV dev p))"
  "apply_to_collection (ObjV cls) dtype f a k =
     (if isinstance (ObjV cls) dtype then f (ObjV cls) a k else py_return (ObjV cls))"
  "apply_to_collection (MapV c kvs) dtype f a k =
     (if isinstance (MapV c kvs) dtype then f (MapV c kvs) a k
      else py_bind (dict_comp (\<lambda>v. apply_to_collection v dtype f a k) kvs [])
             (\<lambda>d. py_result (construct_mapping c d)))"
  "apply_to_collection (NamedTupV n fs xs) dtype f a k =
     (if isinstance (NamedTupV n fs xs) dtype then f (NamedTupV n fs xs) a k
      else py_bind (list_comp (\<lambda>d. apply_to_collection d dtype f a k) xs)
             (\<lambda>ys. py_result (construct_namedtuple n fs ys)))"
  "apply_to_collection (SeqV sc xs) dtype f a k =
     (if isinstance (SeqV sc xs) dtype then f (SeqV sc xs) a k
      else py_bind (list_comp (\<lambda>d. apply_to_collection d dtype f a k) xs)
             (\<lambda>ys. py_result (construct_sequence sc ys)))"
  by (simp_all add: apply_to_collection.simps)

lemmas py_eval = apply_to_collection_eval isinstance_def py_bind_def py_return_def
  py_result_def int_lambda_def

text \<open>
  The structural checks of the source, as \<^verbatim>\<open>isinstance\<close> decides them, pick exactly
  the three container kinds of the universe.
\<close>

lemma isinstance_Mapping_iff: "isinstance data [TMapping] \<longleftrightarrow> (\<exists>c kvs. data = MapV c kvs)"
  by (cases data rule: type_of.cases) (simp_all add: isinstance_def)

lemma isinstance_namedtuple_iff:
  "isinstance data [Ttuple] \<and> hasattr_fields data \<longleftrightarrow> (\<exists>n fs xs. data = NamedTupV n fs xs)"
  by (cases data rule: type_of.cases) (simp_all add: isinstance_def)

lemma isinstance_Sequence_iff:
  "isinstance data [TSequence] \<and> \<not> isinstance data [Tstr] \<longleftrightarrow>
     (\<exists>n fs xs. data = NamedTupV n fs xs) \<or> (\<exists>c xs. data = SeqV c xs)"
  by (cases data rule: type_of.cases) (simp_all add: isinstance_def)

text \<open>A value that matches the leaf types is handed to the function.\<close>

lemma apply_to_collection_leaf:
  "isinstance data dtype \<Longrightarrow> apply_to_collection data dtype f a k = f data a k"
  by (simp add: apply_to_collection.simps)

text \<open>
  The function by the tests of the source: a value that is not a leaf is traversed and
  rebuilt exactly when one of the three structural tests holds, and returned otherwise.
\<close>

lemma apply_to_collection_tests:
  "apply_to_collection data dtype f a k =
     (if isinstance data dtype then f data a k
      else if isinstance data [TMapping] \<or>
              (isinstance data [Ttuple] \<and> hasattr_fields data) \<or>
              (isinstance data [TSequence] \<and> \<not> isinstance data [Tstr])
      then py_bind (list_comp (\<lambda>d. apply_to_collection d dtype f a k) (children data))
             (\<lambda>rs. py_result (rebuild data rs))
      else py_return data)"
proof (cases "isinstance data dtype")
  case True
  then show ?thesis by (simp add: apply_to_collection_leaf)
next
  case False
  have "apply_to_collection data dtype f a k =
      py_bind (list_comp (\<lambda>d. apply_to_collection d dtype f a k) (children data))
        (\<lambda>rs. py_result (rebuild data rs))"
    by (rule ext) (simp add: apply_to_collection_children [OF False] py_bind_def py_result_def
        split: prod.splits sum.splits)
  moreover have "py_bind (list_comp (\<lambda>d. apply_to_collection d dtype f a k) (children data))
        (\<lambda>rs. py_result (rebuild data rs)) = py_return data"
    if "\<not> (isinstance data [TMapping] \<or>
              (isinstance data [Ttuple] \<and> hasattr_fields data) \<or>
              (isinstance data [TSequence] \<and> \<not> isinstance data [Tstr]))"
    using that
    by (cases data rule: type_of.cases)
      (simp_all add: isinstance_def py_bind_def py_return_def py_result_def rebuild_def)
  ultimately show ?thesis using False by simp
qed

text \<open>
  A recursive call of \<open>apply_to_collection\<close>, as the call relation of its definition
  records it, is a call on a child of a value that is not a leaf.
\<close>

lemma call_relation_children:
  assumes "apply_to_collection_rel (sub, dtype', f', a', k') (data, dtype, f, a, k)"
  shows "sub \<in> set (children data) \<and> \<not> isinstance data dtype"
  using assms by (cases rule: apply_to_collection_rel.cases) force+

text \<open>The log of the instrumented function after a traversal.\<close>

lemma list_comp_log:
  assumes "\<And>x st res st'. x \<in> set xs \<Longrightarrow> g x st = (res, st') \<Longrightarrow>
      (\<exists>n. fst st' = fst st @ take n (q x)) \<and> ((\<exists>r. res = Inr r) \<longrightarrow> fst st' = fst st @ q x)"
    and "list_comp g xs st = (res, st')"
  shows "(\<exists>n. fst st' = fst st @ take n (concat (map q xs))) \<and>
         ((\<exists>r. res = Inr r) \<longrightarrow> fst st' = fst st @ concat (map q xs))"
  using assms
proof (induction xs arbitrary: st res st')
  case Nil
  then show ?case by (auto simp: py_return_def)
next
  case (Cons x xs)
  obtain r1 s1 where head: "g x st = (r1, s1)" by (cases "g x st")
  have h: "(\<exists>n. fst s1 = fst st @ take n (q x)) \<and> ((\<exists>r. r1 = Inr r) \<longrightarrow> fst s1 = fst st @ q x)"
    using Cons.prems(1) [OF _ head] by simp
  show ?case
  proof (cases r1)
    case (Inl e)
    then have "res = Inl e" "st' = s1" using Cons.prems(2) head by (simp_all add: py_bind_def)
    moreover obtain n where "fst s1 = fst st @ take n (q x)" using h by blast
    then have "fst s1 = fst st @ take (min n (length (q x))) (q x @ concat (map q xs))"
      by (cases "n \<le> length (q x)") (simp_all add: min_def)
    ultimately have "fst st' = fst st @ take (min n (length (q x))) (concat (map q (x # xs)))"
      and "\<not> (\<exists>r. res = Inr r)"
      by simp_all
    then show ?thesis by blast
  next
    case (Inr y)
    then have s1: "fst s1 = fst st @ q x" using h by blast
    obtain r2 s2 where tail: "list_comp g xs s1 = (r2, s2)" by (cases "list_comp g xs s1")
    have t: "(\<exists>n. fst s2 = fst s1 @ take n (concat (map q xs))) \<and>
         ((\<exists>r. r2 = Inr r) \<longrightarrow> fst s2 = fst s1 @ concat (map q xs))"
      by (rule Cons.IH [OF _ tail]) (simp add: Cons.prems(1))
    have s': "st' = s2" and res: "(\<exists>r. res = Inr r) \<longrightarrow> (\<exists>r. r2 = Inr r)"
      using Cons.prems(2) head tail Inr
      by (auto simp: py_bind_def py_return_def split: sum.splits)
    obtain n where "fst s2 = fst s1 @ take n (concat (map q xs))" using t by blast
    then have "fst st' = fst st @ take (length (q x) + n) (q x @ concat (map q xs))"
      using s1 s' by simp
    then have "fst st' = fst st @ take (length (q x) + n) (concat (map q (x # xs)))" by simp
    then have "\<exists>n. fst st' = fst st @ take n (concat (map q (x # xs)))" by blast
    moreover have "(\<exists>r. res = Inr r) \<longrightarrow> fst st' = fst st @ concat (map q (x # xs))"
      using res t s1 s' by simp
    ultimately show ?thesis by blast
  qed
qed

lemma logged_log:
  "apply_to_collection data dtype (logged f) a k st = (res, st') \<Longrightarrow>
     (\<exists>n. fst st' = fst st @ take n (leaves dtype data)) \<and>
     ((\<exists>r. res = Inr r) \<longrightarrow> fst st' = fst st @ leaves dtype data)"
proof (induction data arbitrary: st res st' rule: children_induct)
  case (step data)
  show ?case
  proof (cases "isinstance data dtype")
    case True
    then have "fst st' = fst st @ [data]" using step.prems
      by (auto simp: apply_to_collection_leaf logged_def split: prod.splits)
    then have "fst st' = fst st @ take 1 (leaves dtype data)" "fst st' = fst st @ leaves dtype data"
      using True by (simp_all add: leaves_self)
    then show ?thesis by blast
  next
    case False
    obtain r1 s1 where lc:
      "list_comp (\<lambda>d. apply_to_collection d dtype (logged f) a k) (children data) st = (r1, s1)"
      by (cases "list_comp (\<lambda>d. apply_to_collection d dtype (logged f) a k) (children data) st")
    have kids: "(\<exists>n. fst s1 = fst st @ take n (concat (map (leaves dtype) (children data)))) \<and>
         ((\<exists>r. r1 = Inr r) \<longrightarrow> fst s1 = fst st @ concat (map (leaves dtype) (children data)))"
      by (rule list_comp_log [OF _ lc]) (rule step.IH)
    have "st' = s1" and "(\<exists>r. res = Inr r) \<longrightarrow> (\<exists>r. r1 = Inr r)"
      using step.prems lc by (auto simp: apply_to_collection_children [OF False] split: sum.splits)
    then show ?thesis using kids by (simp add: leaves_children [OF False])
  qed
qed

text \<open>The instrumentation does not change what the traversal does.\<close>

lemma list_comp_unlogged:
  assumes "\<And>x log s res log' s'. x \<in> set xs \<Longrightarrow> G x (log, s) = (res, (log', s')) \<Longrightarrow>
      g x s = (res, s')"
    and "list_comp G xs (log, s) = (res, (log', s'))"
  shows "list_comp g xs s = (res, s')"
  using assms
proof (induction xs arbitrary: log s res log' s')
  case Nil
  then show ?case by (simp add: py_return_def)
next
  case (Cons x xs)
  obtain r1 l1 s1 where head: "G x (log, s) = (r1, (l1, s1))" by (cases "G x (log, s)") auto
  have h: "g x s = (r1, s1)" using Cons.prems(1) [OF _ head] by simp
  show ?case
  proof (cases r1)
    case (Inl e)
    then show ?thesis using Cons.prems(2) head h by (simp add: py_bind_def)
  next
    case (Inr y)
    obtain r2 l2 s2 where tail: "list_comp G xs (l1, s1) = (r2, (l2, s2))"
      by (cases "list_comp G xs (l1, s1)") auto
    have t: "list_comp g xs s1 = (r2, s2)"
      by (rule Cons.IH [OF _ tail]) (use Cons.prems(1) in auto)
    show ?thesis using Cons.prems(2) head h tail t Inr
      by (auto simp: py_bind_def py_return_def split: sum.splits)
  qed
qed

lemma logged_run:
  "apply_to_collection data dtype (logged f) a k (log, s) = (res, (log', s')) \<Longrightarrow>
     apply_to_collection data dtype f a k s = (res, s')"
proof (induction data arbitrary: log s res log' s' rule: children_induct)
  case (step data)
  show ?case
  proof (cases "isinstance data dtype")
    case True
    then show ?thesis using step.prems
      by (auto simp: apply_to_collection_leaf logged_def split: prod.splits)
  next
    case False
    obtain r1 l1 s1 where lc:
      "list_comp (\<lambda>d. apply_to_collection d dtype (logged f) a k) (children data) (log, s)
         = (r1, (l1, s1))"
      by (cases "list_comp (\<lambda>d. apply_to_collection d dtype (logged f) a k) (children data) (log, s)")
        auto
    have "list_comp (\<lambda>d. apply_to_collection d dtype f a k) (children data) s = (r1, s1)"
      by (rule list_comp_unlogged [OF _ lc]) (rule step.IH)
    then show ?thesis using step.prems lc
      by (auto simp: apply_to_collection_children [OF False] split: sum.splits)
  qed
qed

text \<open>
  The calls of the function in a traversal, apart from their results: whether a run
  fails, with what, and the state it leaves, is what the calls on the leaves, made in
  the order of the traversal, decide, when the containers can be rebuilt.
\<close>

lemma list_comp_append:
  "list_comp g (xs @ ys) s =
     (case list_comp g xs s of
        (Inl e, s1) \<Rightarrow> (Inl e, s1)
      | (Inr as, s1) \<Rightarrow>
          (case list_comp g ys s1 of
             (Inl e, s2) \<Rightarrow> (Inl e, s2)
           | (Inr bs, s2) \<Rightarrow> (Inr (as @ bs), s2)))"
  by (induction xs arbitrary: s)
    (auto simp: py_bind_def py_return_def split: prod.splits sum.splits)

lemma outcome_list_comp_Cons:
  "outcome (list_comp g (x # xs) s) =
     (case outcome (g x s) of
        (Inl e, s1) \<Rightarrow> (Inl e, s1)
      | (Inr u, s1) \<Rightarrow> outcome (list_comp g xs s1))"
  by (auto simp: outcome_def py_bind_def py_return_def split: prod.splits sum.splits)

lemma outcome_list_comp_append:
  "outcome (list_comp g (xs @ ys) s) =
     (case outcome (list_comp g xs s) of
        (Inl e, s1) \<Rightarrow> (Inl e, s1)
      | (Inr u, s1) \<Rightarrow> outcome (list_comp g ys s1))"
  by (auto simp: outcome_def list_comp_append split: prod.splits sum.splits)

lemma outcome_list_comp_concat:
  assumes "\<And>x s. x \<in> set xs \<Longrightarrow> outcome (G x s) = outcome (list_comp g (q x) s)"
  shows "outcome (list_comp G xs s) = outcome (list_comp g (concat (map q xs)) s)"
  using assms
proof (induction xs arbitrary: s)
  case Nil
  show ?case by (simp add: outcome_def py_return_def)
next
  case (Cons x xs)
  have tl: "outcome (list_comp G xs t) = outcome (list_comp g (concat (map q xs)) t)" for t
    by (rule Cons.IH) (simp add: Cons.prems)
  have hd: "outcome (G x s) = outcome (list_comp g (q x) s)"
    by (simp add: Cons.prems)
  show ?case
    by (simp add: outcome_list_comp_Cons outcome_list_comp_append hd tl
        del: list_comp.simps split: prod.splits sum.splits)
qed

lemma rebuild_accepted:
  assumes "\<not> isinstance data dtype" "constructors_accept dtype data"
    "length rs = length (children data)"
  shows "\<exists>r. rebuild data rs = Inr r"
proof (cases data)
  case (MapV c kvs)
  then show ?thesis using assms by (cases c) (simp_all add: rebuild_def)
next
  case (NamedTupV n fs xs)
  then show ?thesis using assms by (simp add: rebuild_def)
next
  case (SeqV c xs)
  then show ?thesis using assms by (cases c) (simp_all add: rebuild_def)
qed (simp_all add: rebuild_def)

lemma outcome_list_comp_length:
  "outcome (list_comp g xs s) = (Inr u, s') \<Longrightarrow> \<exists>ys. list_comp g xs s = (Inr ys, s')"
  by (auto simp: outcome_def split: prod.splits sum.splits)

lemma outcome_by_leaves:
  "constructors_accept dtype data \<Longrightarrow>
     outcome (apply_to_collection data dtype f a k s)
       = outcome (list_comp (\<lambda>v. f v a k) (leaves dtype data) s)"
proof (induction data arbitrary: s rule: children_induct)
  case (step data)
  show ?case
  proof (cases "isinstance data dtype")
    case True
    then show ?thesis
      by (auto simp: apply_to_collection_leaf leaves_self outcome_def py_bind_def py_return_def
          split: prod.splits sum.splits)
  next
    case False
    let ?kids = "list_comp (\<lambda>d. apply_to_collection d dtype f a k) (children data) s"
    have rebuilt: "outcome (apply_to_collection data dtype f a k s) = outcome ?kids"
    proof (cases ?kids)
      case (Pair res s1)
      show ?thesis
      proof (cases res)
        case (Inl e)
        then show ?thesis using Pair
          by (simp add: apply_to_collection_children [OF False] outcome_def)
      next
        case (Inr rs)
        then have "length rs = length (children data)"
          using Pair by (auto dest: list_comp_length)
        then obtain r where "rebuild data rs = Inr r"
          using rebuild_accepted [OF False step.prems] by blast
        then show ?thesis using Pair Inr
          by (simp add: apply_to_collection_children [OF False] outcome_def)
      qed
    qed
    have "outcome ?kids
        = outcome (list_comp (\<lambda>v. f v a k) (concat (map (leaves dtype) (children data))) s)"
      by (rule outcome_list_comp_concat)
        (simp add: step.IH constructors_accept_children [OF False step.prems])
    then show ?thesis using rebuilt by (simp add: leaves_children [OF False])
  qed
qed

lemma list_comp_success_rel:
  "list_comp g xs s = (Inr ys, s') \<Longrightarrow>
     list_all2 (\<lambda>x y. \<exists>s0 s1. g x s0 = (Inr y, s1)) xs ys"
proof (induction xs arbitrary: ys s)
  case Nil
  then show ?case by (simp add: py_return_def)
next
  case (Cons x xs)
  from Cons.prems obtain y s1 ys' where hd: "g x s = (Inr y, s1)"
    and tl: "list_comp g xs s1 = (Inr ys', s')" and ys: "ys = y # ys'"
    by (auto simp: py_bind_def py_return_def split: prod.splits sum.splits)
  show ?case using Cons.IH [OF tl] hd ys by auto
qed

lemma rebuild_same_node:
  assumes "\<not> isinstance data dtype" "distinct_keys dtype data" "rebuild data rs = Inr r"
    "length rs = length (children data)"
  shows "same_node data r \<and> children r = rs"
proof (cases data)
  case (MapV c kvs)
  have "fold (\<lambda>(k, r). AList.update k r) (zip (map fst kvs) rs) [] = zip (map fst kvs) rs"
    using assms MapV by (subst fold_update_distinct) simp_all
  then show ?thesis using assms MapV by (cases c) (auto simp: rebuild_def)
next
  case (NamedTupV n fs xs)
  then show ?thesis using assms by (auto simp: rebuild_def split: if_splits)
next
  case (SeqV c xs)
  then show ?thesis using assms by (cases c) (auto simp: rebuild_def)
qed (use assms in \<open>auto simp: rebuild_def\<close>)

lemma success_same_shape:
  "distinct_keys dtype data \<Longrightarrow> apply_to_collection data dtype f a k s = (Inr r, s') \<Longrightarrow>
     same_shape (\<lambda>v v'. \<exists>s0 s1. f v a k s0 = (Inr v', s1)) dtype data r"
proof (induction data arbitrary: s r s' rule: children_induct)
  case (step data)
  let ?P = "\<lambda>v v'. \<exists>s0 s1. f v a k s0 = (Inr v', s1)"
  show ?case
  proof (cases "isinstance data dtype")
    case True
    then show ?thesis using step.prems(2)
      by (auto simp: same_shape.simps [of _ _ data] apply_to_collection_leaf)
  next
    case False
    obtain rs where lc:
      "list_comp (\<lambda>d. apply_to_collection d dtype f a k) (children data) s = (Inr rs, s')"
      and rb: "rebuild data rs = Inr r"
      using step.prems(2)
      by (auto simp: apply_to_collection_children [OF False] split: prod.splits sum.splits)
    have len: "length rs = length (children data)" using list_comp_length [OF lc] .
    have "list_all2 (\<lambda>x y. \<exists>s0 s1. apply_to_collection x dtype f a k s0 = (Inr y, s1))
        (children data) rs"
      using list_comp_success_rel [OF lc] .
    then have "list_all2 (same_shape ?P dtype) (children data) rs"
    proof (rule list.rel_mono_strong)
      fix x y
      assume "x \<in> set (children data)"
        and "\<exists>s0 s1. apply_to_collection x dtype f a k s0 = (Inr y, s1)"
      then show "same_shape ?P dtype x y"
        using step.IH distinct_keys_children [OF False step.prems(1)] by blast
    qed
    then show ?thesis
      using rebuild_same_node [OF False step.prems(1) rb len] False
      by (simp add: same_shape.simps [of _ _ data])
  qed
qed

text \<open>
  The function on a bounded stack: it does what the function on an unbounded stack does
  when the calls left suffice for the nesting of the value, and an exception that ends
  it has one of three origins.
\<close>

lemma limited_leaf:
  "isinstance data dtype \<Longrightarrow>
     apply_to_collection_limited (Suc stack) data dtype f a k = f data a k"
  by (simp add: apply_to_collection_limited.simps)

lemma limited_children:
  assumes "\<not> isinstance data dtype"
  shows "apply_to_collection_limited (Suc stack) data dtype f a k s =
     (case list_comp (\<lambda>d. apply_to_collection_limited stack d dtype f a k) (children data) s of
        (Inl e, s') \<Rightarrow> (Inl e, s')
      | (Inr rs, s') \<Rightarrow> (rebuild data rs, s'))"
  using assms
  by (cases data)
    (simp_all add: apply_to_collection_limited.simps rebuild_def py_bind_def py_result_def
      py_return_def dict_comp_list_comp split: prod.splits sum.splits)

lemma fold_max_ge: "(a::nat) \<le> fold max xs a"
  by (induction xs arbitrary: a) (auto intro: order_trans [OF max.cobounded2])

lemma fold_max_member: "(x::nat) \<in> set xs \<Longrightarrow> x \<le> fold max xs a"
proof (induction xs arbitrary: a)
  case Nil
  then show ?case by simp
next
  case (Cons y ys)
  show ?case
  proof (cases "x = y")
    case True
    have "max y a \<le> fold max ys (max y a)" by (rule fold_max_ge)
    then show ?thesis using True by simp
  next
    case False
    then show ?thesis using Cons by simp
  qed
qed

lemma calls_needed_children:
  "\<not> isinstance data dtype \<Longrightarrow> x \<in> set (children data) \<Longrightarrow>
     calls_needed dtype x < calls_needed dtype data"
proof (cases data)
  case (MapV c kvs)
  assume "\<not> isinstance data dtype" "x \<in> set (children data)"
  then have "calls_needed dtype x \<in> set (map (\<lambda>(k, v). calls_needed dtype v) kvs)"
    using MapV by force
  then show ?thesis using fold_max_member MapV \<open>\<not> isinstance data dtype\<close>
    by (fastforce simp: less_Suc_eq_le)
next
  case (NamedTupV n fs xs)
  assume "\<not> isinstance data dtype" "x \<in> set (children data)"
  then have "calls_needed dtype x \<in> set (map (calls_needed dtype) xs)"
    using NamedTupV by force
  then show ?thesis using fold_max_member NamedTupV \<open>\<not> isinstance data dtype\<close>
    by (fastforce simp: less_Suc_eq_le)
next
  case (SeqV c xs)
  assume "\<not> isinstance data dtype" "x \<in> set (children data)"
  then have "calls_needed dtype x \<in> set (map (calls_needed dtype) xs)"
    using SeqV by force
  then show ?thesis using fold_max_member SeqV \<open>\<not> isinstance data dtype\<close>
    by (fastforce simp: less_Suc_eq_le)
qed simp_all

lemma calls_needed_positive: "0 < calls_needed dtype data"
  by (cases data) simp_all

lemma limited_refines:
  "calls_needed dtype data \<le> stack \<Longrightarrow>
     apply_to_collection_limited stack data dtype f a k = apply_to_collection data dtype f a k"
proof (induction stack arbitrary: data)
  case 0
  then show ?case using calls_needed_positive [of dtype data] by simp
next
  case (Suc stack)
  show ?case
  proof (cases "isinstance data dtype")
    case True
    then show ?thesis by (simp add: apply_to_collection_leaf limited_leaf)
  next
    case False
    have "apply_to_collection_limited stack x dtype f a k = apply_to_collection x dtype f a k"
      if "x \<in> set (children data)" for x
      using calls_needed_children [OF False that] Suc.prems by (intro Suc.IH) simp
    then have "list_comp (\<lambda>d. apply_to_collection_limited stack d dtype f a k) (children data)
        = list_comp (\<lambda>d. apply_to_collection d dtype f a k) (children data)"
      by (intro list_comp_cong) simp_all
    then show ?thesis
      by (intro ext) (simp add: limited_children [OF False] apply_to_collection_children [OF False])
  qed
qed

lemma limited_failure_origin:
  "apply_to_collection_limited stack data dtype f a k s = (Inl e, s') \<Longrightarrow>
     (\<exists>v\<in>set (leaves dtype data). \<exists>s0. f v a k s0 = (Inl e, s'))
     \<or> (e = TypeError \<and> \<not> constructors_accept dtype data)
     \<or> (e = RecursionError \<and> stack < calls_needed dtype data)"
proof (induction stack arbitrary: data s)
  case 0
  then show ?case using calls_needed_positive [of dtype data]
    by (simp add: apply_to_collection_limited.simps py_result_def)
next
  case (Suc stack)
  show ?case
  proof (cases "isinstance data dtype")
    case True
    then have "f data a k s = (Inl e, s')" using Suc.prems by (simp add: limited_leaf)
    then show ?thesis using True by (auto simp: leaves_self)
  next
    case False
    show ?thesis
    proof (cases "list_comp (\<lambda>d. apply_to_collection_limited stack d dtype f a k)
        (children data) s")
      case (Pair res s1)
      show ?thesis
      proof (cases res)
        case (Inl e1)
        then have lc: "list_comp (\<lambda>d. apply_to_collection_limited stack d dtype f a k)
            (children data) s = (Inl e, s')"
          using Suc.prems Pair by (simp add: limited_children [OF False])
        obtain x s0 where x: "x \<in> set (children data)"
          and fail: "apply_to_collection_limited stack x dtype f a k s0 = (Inl e, s')"
          using list_comp_failure [OF lc] by blast
        from Suc.IH [OF fail] consider
          (by_function) "\<exists>v\<in>set (leaves dtype x). \<exists>s0. f v a k s0 = (Inl e, s')"
          | (by_constructor) "e = TypeError \<and> \<not> constructors_accept dtype x"
          | (by_depth) "e = RecursionError \<and> stack < calls_needed dtype x"
          by blast
        then show ?thesis
        proof cases
          case by_function
          then show ?thesis using leaves_subset_children [OF False x] by blast
        next
          case by_constructor
          then show ?thesis using constructors_accept_children [OF False _ x] by blast
        next
          case by_depth
          then show ?thesis using calls_needed_children [OF False x] by simp
        qed
      next
        case (Inr rs)
        then have rb: "rebuild data rs = Inl e"
          using Suc.prems Pair by (simp add: limited_children [OF False])
        have len: "length rs = length (children data)"
          using Pair Inr by (auto dest: list_comp_length)
        have "e = TypeError \<and> \<not> constructors_accept dtype data"
        proof (cases data)
          case (MapV c kvs)
          then show ?thesis using rb False by (cases c) (auto simp: rebuild_def)
        next
          case (NamedTupV n fs xs)
          then show ?thesis using rb False len by (auto simp: rebuild_def split: if_splits)
        next
          case (SeqV c xs)
          then show ?thesis using rb False by (cases c) (auto simp: rebuild_def)
        qed (use rb in \<open>simp_all add: rebuild_def\<close>)
        then show ?thesis by blast
      qed
    qed
  qed
qed

lemma nested_not_leaf: "\<not> isinstance (nested (Suc n) v) [Tint]"
  by (simp add: isinstance_def)

lemma limited_nested:
  "apply_to_collection_limited n (nested n (IntV i)) [Tint] f a k s = (Inl RecursionError, s)"
proof (induction n)
  case 0
  show ?case by (simp add: apply_to_collection_limited.simps py_result_def)
next
  case (Suc n)
  have "\<not> isinstance (nested (Suc n) (IntV i)) [Tint]" by (rule nested_not_leaf)
  then show ?case
    using Suc by (simp add: limited_children py_bind_def)
qed

lemma leaves_nested: "leaves [Tint] (nested n (IntV i)) = [IntV i]"
  by (induction n) (simp_all add: isinstance_def)

lemma constructors_accept_nested: "constructors_accept [Tint] (nested n (IntV i))"
  by (induction n) (simp_all add: isinstance_def)

lemma calls_needed_nested: "calls_needed [Tint] (nested n (IntV i)) = Suc n"
  by (induction n) (simp_all add: isinstance_def)

lemma limited_eval:
  "apply_to_collection_limited (Suc stack) (IntV i) dtype f a k =
     (if isinstance (IntV i) dtype then f (IntV i) a k else py_return (IntV i))"
  by (simp add: apply_to_collection_limited.simps)

text \<open>
  On the values of this universe the recursion ends. \<open>apply_to_collection_rel\<close> is the
  call relation of the definition (callee, caller), and \<open>apply_to_collection_dom\<close> its
  accessible part: the arguments from which every chain of recursive calls is finite.
  Every argument tuple is in it; each recursive call is on a child of the caller's value,
  a strictly smaller value; and no recursive call is made on behalf of a \<^verbatim>\<open>str\<close>.
\<close>

lemma apply_to_collection_terminates:
  "apply_to_collection_dom (data, dtype, function, args, kwargs) \<and>
   (apply_to_collection_rel (sub, dtype', function', args', kwargs')
        (data, dtype, function, args, kwargs) \<longrightarrow>
      sub \<in> set (children data) \<and> size sub < size data) \<and>
   \<not> apply_to_collection_rel call (StrV str, dtype, function, args, kwargs)"
proof (intro conjI impI)
  show "apply_to_collection_dom (data, dtype, function, args, kwargs)"
  proof (induction data rule: children_induct)
    case (step data)
    show ?case
    proof (rule accpI)
      fix call
      assume "apply_to_collection_rel call (data, dtype, function, args, kwargs)"
      then obtain sub where "call = (sub, dtype, function, args, kwargs)"
        and "sub \<in> set (children data)"
        by (cases rule: apply_to_collection_rel.cases) force+
      then show "apply_to_collection_dom call" using step.IH by simp
    qed
  qed
next
  assume "apply_to_collection_rel (sub, dtype', function', args', kwargs')
        (data, dtype, function, args, kwargs)"
  then show "sub \<in> set (children data)" "size sub < size data"
    using call_relation_children size_children by blast+
next
  show "\<not> apply_to_collection_rel call (StrV str, dtype, function, args, kwargs)"
  proof
    assume "apply_to_collection_rel call (StrV str, dtype, function, args, kwargs)"
    then show False by (cases rule: apply_to_collection_rel.cases) simp_all
  qed
qed

section \<open>The claims\<close>

subsection \<open>C1: the sequence branch\<close>

text \<open>
  C1 (amended). The claim reads: a non-string ordered sequence that does not match the leaf
  types is mapped element by element, in order, into a generic ordered sequence that
  need not have the original concrete type. The code does not build a generic sequence:
  it hands the list of the mapped elements to the constructor of the value's own type,
  \<^verbatim>\<open>elem_type([...])\<close>. So, for a sequence that is not a named tuple (a list, a plain
  tuple, a range), does not match \<open>dtype\<close> and whose elements are all mapped without an
  exception, the result is what \<open>construct_sequence elem_type\<close> makes of the mapped
  elements \<open>ys\<close>, which are as many as the elements; for a list that is a list and for a
  plain tuple a plain tuple.
\<close>

theorem sequence_rebuilt_by_its_own_type:
  assumes "\<not> isinstance (SeqV elem_type xs) dtype"
    and "list_comp (\<lambda>d. apply_to_collection d dtype function args kwargs) xs s = (Inr ys, s')"
  shows "apply_to_collection (SeqV elem_type xs) dtype function args kwargs s
           = (construct_sequence elem_type ys, s') \<and>
         length ys = length xs \<and>
         (elem_type \<noteq> Crange \<longrightarrow>
            construct_sequence elem_type ys = Inr (SeqV elem_type ys))"
  using assms list_comp_length [OF assms(2)]
  by (cases elem_type) (simp_all add: apply_to_collection.simps py_bind_def py_result_def)

theorem sequence_rebuilt_by_its_own_type_witness:
  "apply_to_collection (SeqV Clist [IntV 1, StrV ''keep'', IntV 2]) [Tint] times_ten [] [] ()
     = (Inr (SeqV Clist [IntV 10, StrV ''keep'', IntV 20]), ()) \<and>
   apply_to_collection (SeqV Ctuple [IntV 1, IntV 2]) [Tint] times_ten [] [] ()
     = (Inr (SeqV Ctuple [IntV 10, IntV 20]), ())"
proof -
  have not_leaf: "\<not> isinstance (SeqV Clist [IntV 1, StrV ''keep'', IntV 2]) [Tint]"
    "\<not> isinstance (SeqV Ctuple [IntV 1, IntV 2]) [Tint]"
    by (simp_all add: isinstance_def)
  have elements:
    "list_comp (\<lambda>d. apply_to_collection d [Tint] times_ten [] [])
       [IntV 1, StrV ''keep'', IntV 2] () = (Inr [IntV 10, StrV ''keep'', IntV 20], ())"
    "list_comp (\<lambda>d. apply_to_collection d [Tint] times_ten [] [])
       [IntV 1, IntV 2] () = (Inr [IntV 10, IntV 20], ())"
    by (simp_all add: py_eval times_ten_def)
  show ?thesis
    using sequence_rebuilt_by_its_own_type [OF not_leaf(1) elements(1)]
      sequence_rebuilt_by_its_own_type [OF not_leaf(2) elements(2)]
    by simp
qed

text \<open>
  The claim as stated fails on a \<^verbatim>\<open>range\<close>: \<^verbatim>\<open>range(2)\<close> is a \<^verbatim>\<open>Sequence\<close>, not a
  string and not an \<^verbatim>\<open>int\<close>, and \<^verbatim>\<open>apply_to_collection(range(2), int, lambda x: x * 10)\<close>
  returns no sequence: \<^verbatim>\<open>range([0, 10])\<close> raises \<^verbatim>\<open>TypeError\<close>.
\<close>

theorem generic_sequence_counterexample:
  "isinstance (SeqV Crange [IntV 0, IntV 1]) [TSequence] \<and>
   \<not> isinstance (SeqV Crange [IntV 0, IntV 1]) [Tstr] \<and>
   \<not> isinstance (SeqV Crange [IntV 0, IntV 1]) [Tint] \<and>
   apply_to_collection (SeqV Crange [IntV 0, IntV 1]) [Tint] times_ten [] [] ()
     = (Inl TypeError, ())"
  by (simp add: py_eval times_ten_def)

subsection \<open>C2: leaves first\<close>

text \<open>
  C2. A value that is an instance of the leaf types is handed to the function, and the
  result of the whole call is that of \<^verbatim>\<open>function(data, *args, **kwargs)\<close>, whatever the
  value is: a mapping, a named tuple or a sequence that matches is not recursed into. The
  equation is between computations, so no other call is made.
\<close>

theorem leaf_match_takes_priority:
  "isinstance data dtype \<Longrightarrow>
     apply_to_collection data dtype function args kwargs = function data args kwargs"
  by (simp add: apply_to_collection.simps)

theorem leaf_match_takes_priority_witness:
  "isinstance (MapV Cdict [(StrV ''a'', IntV 1)]) [Tint, TMapping] \<and>
   apply_to_collection (MapV Cdict [(StrV ''a'', IntV 1)]) [Tint, TMapping]
       (logged (pure_function (\<lambda>v. NoneV))) [] [] ([], ())
     = (Inr NoneV, ([MapV Cdict [(StrV ''a'', IntV 1)]], ()))"
  using leaf_match_takes_priority
    [of "MapV Cdict [(StrV ''a'', IntV 1)]" "[Tint, TMapping]"
      "logged (pure_function (\<lambda>v. NoneV)) :: (pyval list \<times> unit) pyfunction" "[]" "[]"]
  by (simp add: isinstance_def logged_def pure_function_def py_return_def)

subsection \<open>C3: moving a batch to a device\<close>




subsection \<open>C4: the mapping branch\<close>

text \<open>
  C4 (amended). The claim reads: every mapping that does not match the leaf types is
  rebuilt as the same concrete mapping type, by passing the freshly built dict to that
  type's constructor. The code does call the mapping's own type with the dict, and what
  that call does depends on the type. When the recursive calls on the values of a mapping
  with distinct keys, made in the order of the items, return \<open>rs\<close>, the result is that of
  the mapping's own constructor called with the dict that maps the unchanged keys, in
  their order, to \<open>rs\<close>: for \<^verbatim>\<open>dict\<close> and \<^verbatim>\<open>OrderedDict\<close> a mapping of the same type
  with these items; for \<^verbatim>\<open>defaultdict\<close>, whose first parameter is the default factory,
  a \<^verbatim>\<open>TypeError\<close>, and no mapping. The witness has the spec's example:
  \<^verbatim>\<open>{"a": 1, "b": 2}\<close> with leaf type \<^verbatim>\<open>int\<close> and \<^verbatim>\<open>lambda x: x * 2\<close> gives the dict
  \<^verbatim>\<open>{"a": 2, "b": 4}\<close>.
\<close>

theorem mapping_rebuilt_by_its_own_type:
  assumes "\<not> isinstance (MapV elem_type kvs) dtype"
    and "distinct (map fst kvs)"
    and "list_comp (\<lambda>v. apply_to_collection v dtype function args kwargs) (map snd kvs) s
           = (Inr rs, s')"
  shows "apply_to_collection (MapV elem_type kvs) dtype function args kwargs s
           = (construct_mapping elem_type (zip (map fst kvs) rs), s') \<and>
         (elem_type \<noteq> Cdefaultdict \<longrightarrow>
            apply_to_collection (MapV elem_type kvs) dtype function args kwargs s
              = (Inr (MapV elem_type (zip (map fst kvs) rs)), s')) \<and>
         (elem_type = Cdefaultdict \<longrightarrow>
            apply_to_collection (MapV elem_type kvs) dtype function args kwargs s
              = (Inl TypeError, s'))"
proof -
  have "fold (\<lambda>(k, r). AList.update k r) (zip (map fst kvs) rs) [] = zip (map fst kvs) rs"
    using fold_update_distinct [OF assms(2), of "[]" rs] by simp
  then have "apply_to_collection (MapV elem_type kvs) dtype function args kwargs s
      = (construct_mapping elem_type (zip (map fst kvs) rs), s')"
    using assms(1,3)
    by (simp add: apply_to_collection.simps py_bind_def py_result_def dict_comp_list_comp)
  then show ?thesis by (cases elem_type) simp_all
qed

theorem mapping_rebuilt_by_its_own_type_witness:
  "apply_to_collection (MapV Cdict [(StrV ''a'', IntV 1), (StrV ''b'', IntV 2)]) [Tint]
       double [] [] ()
     = (Inr (MapV Cdict [(StrV ''a'', IntV 2), (StrV ''b'', IntV 4)]), ()) \<and>
   apply_to_collection (MapV COrderedDict [(StrV ''a'', IntV 1), (StrV ''b'', IntV 2)]) [Tint]
       double [] [] ()
     = (Inr (MapV COrderedDict [(StrV ''a'', IntV 2), (StrV ''b'', IntV 4)]), ()) \<and>
   apply_to_collection (MapV Cdefaultdict [(StrV ''a'', IntV 1), (StrV ''b'', IntV 2)]) [Tint]
       double [] [] ()
     = (Inl TypeError, ())"
proof -
  let ?items = "[(StrV ''a'', IntV 1), (StrV ''b'', IntV 2)]"
  have not_leaf: "\<not> isinstance (MapV c ?items) [Tint]" for c
    by (cases c) (simp_all add: isinstance_def)
  have keys: "distinct (map fst ?items)" by simp
  have mapped_values:
    "list_comp (\<lambda>v. apply_to_collection v [Tint] double [] []) (map snd ?items) ()
       = (Inr [IntV 2, IntV 4], ())"
    by (simp add: py_eval double_def)
  show ?thesis
    using mapping_rebuilt_by_its_own_type [OF not_leaf keys mapped_values, of Cdict]
      mapping_rebuilt_by_its_own_type [OF not_leaf keys mapped_values, of COrderedDict]
      mapping_rebuilt_by_its_own_type [OF not_leaf keys mapped_values, of Cdefaultdict]
    by simp
qed

text \<open>
  The claim as stated fails on a \<^verbatim>\<open>defaultdict\<close>: for
  \<^verbatim>\<open>defaultdict(int, {"a": 1, "b": 2})\<close>, a mapping that is not an \<^verbatim>\<open>int\<close>, the values
  are doubled and then \<^verbatim>\<open>defaultdict({"a": 2, "b": 4})\<close> raises \<^verbatim>\<open>TypeError\<close>.
\<close>

theorem same_mapping_type_counterexample:
  "isinstance (MapV Cdefaultdict [(StrV ''a'', IntV 1), (StrV ''b'', IntV 2)]) [TMapping] \<and>
   \<not> isinstance (MapV Cdefaultdict [(StrV ''a'', IntV 1), (StrV ''b'', IntV 2)]) [Tint] \<and>
   apply_to_collection (MapV Cdefaultdict [(StrV ''a'', IntV 1), (StrV ''b'', IntV 2)]) [Tint]
       double [] [] ()
     = (Inl TypeError, ())"
  by (simp add: py_eval double_def)

subsection \<open>C5: the named-tuple branch\<close>



subsection \<open>C6 and C7: strings and other unmatched leaves\<close>

text \<open>
  C6. A string is never decomposed into its characters: the result is that of the
  function on the whole string when \<^verbatim>\<open>str\<close> is among the leaf types, and the string
  itself otherwise.
\<close>

theorem string_never_decomposed:
  "apply_to_collection (StrV str) dtype function args kwargs =
     (if isinstance (StrV str) dtype then function (StrV str) args kwargs
      else py_return (StrV str))"
  by (simp add: apply_to_collection.simps)

theorem string_never_decomposed_witness:
  "apply_to_collection (StrV ''hello'') [Tstr] (logged (pure_function (\<lambda>v. NoneV))) [] []
       ([], ())
     = (Inr NoneV, ([StrV ''hello''], ())) \<and>
   apply_to_collection (StrV ''hello'') [Tint] (logged (pure_function (\<lambda>v. NoneV))) [] []
       ([], ())
     = (Inr (StrV ''hello''), ([], ()))"
  using string_never_decomposed
      [of "''hello''" "[Tstr]" "logged (pure_function (\<lambda>v. NoneV)) :: (pyval list \<times> unit) pyfunction" "[]" "[]"]
    string_never_decomposed
      [of "''hello''" "[Tint]" "logged (pure_function (\<lambda>v. NoneV)) :: (pyval list \<times> unit) pyfunction" "[]" "[]"]
  by (simp add: isinstance_def logged_def pure_function_def py_return_def)

text \<open>
  C7. A value that does not match the leaf types and is neither a mapping, nor a named
  tuple, nor a non-string sequence is returned as it is, without an exception and without
  a call of the function.
\<close>

theorem unmatched_leaf_returned_unchanged:
  assumes "\<not> isinstance data dtype"
    and "\<not> isinstance data [TMapping]"
    and "\<not> (isinstance data [Ttuple] \<and> hasattr_fields data)"
    and "\<not> (isinstance data [TSequence] \<and> \<not> isinstance data [Tstr])"
  shows "apply_to_collection data dtype function args kwargs = py_return data"
  using assms
  by (cases data rule: type_of.cases)
    (simp_all add: apply_to_collection.simps isinstance_def)

theorem unmatched_leaf_returned_unchanged_witness:
  "\<not> isinstance (ObjV ''Foo'') [Tint] \<and> \<not> isinstance (ObjV ''Foo'') [TMapping] \<and>
   \<not> (isinstance (ObjV ''Foo'') [Ttuple] \<and> hasattr_fields (ObjV ''Foo'')) \<and>
   \<not> (isinstance (ObjV ''Foo'') [TSequence] \<and> \<not> isinstance (ObjV ''Foo'') [Tstr]) \<and>
   apply_to_collection (ObjV ''Foo'') [Tint] (logged (pure_function (\<lambda>v. NoneV))) [] []
       ([], ())
     = (Inr (ObjV ''Foo''), ([], ()))"
  using unmatched_leaf_returned_unchanged
    [of "ObjV ''Foo''" "[Tint]" "logged (pure_function (\<lambda>v. NoneV)) :: (pyval list \<times> unit) pyfunction" "[]" "[]"]
  by (simp add: isinstance_def py_return_def)

subsection \<open>C8: failures\<close>




subsection \<open>C9: termination\<close>

text \<open>
  C9 (a defect of the code). The claim reads: for every finite input the recursion
  terminates, each recursive call being on a strict sub-value of a container, and strings
  are never recursed into. The guard of the sequence branch,
  \<^verbatim>\<open>isinstance(data, Sequence) and not isinstance(data, str)\<close>, keeps the recursion out of
  a \<^verbatim>\<open>str\<close> and of nothing else. \<^verbatim>\<open>collections.UserString('a')\<close> is a finite value, a
  \<^verbatim>\<open>Sequence\<close> and not a \<^verbatim>\<open>str\<close>, and its iteration yields
  \<^verbatim>\<open>UserString('a')\<close>, a value equal to it. The call
  \<^verbatim>\<open>apply_to_collection(collections.UserString('a'), int, f)\<close> therefore enters the
  sequence branch and recurses on an equal value, in every call again: the recursion does
  not terminate (the interpreter ends it with \<^verbatim>\<open>RecursionError\<close>). A value whose
  iteration yields itself is not one of the finite trees of \<open>pyval\<close>, on which the
  recursion does end (\<open>apply_to_collection_terminates\<close>), so no theorem about the
  definitions above states the claim.
\<close>

subsection \<open>C10: one call for each leaf\<close>

text \<open>
  C10. Let the function, whatever it is, be instrumented by a log of its calls. The
  instrumented run does what the plain run does. Every run, failed or not, has called
  the function on an initial stretch of the leaves of the traversal, once each and in
  order, and on nothing else; a run that returns has called it on every leaf exactly once.
  And if the function returns \<open>h v\<close> on every leaf \<open>v\<close> (the mappings having distinct
  keys), the run returns the value in which each leaf \<open>v\<close> is replaced by \<open>h v\<close> as it
  is: \<open>map_leaves\<close> does not look into \<open>h v\<close>, so a result that matches the leaf types
  or is a container is neither transformed again nor recursed into.
\<close>

theorem function_applied_once_per_leaf:
  assumes "apply_to_collection data dtype (logged f) args kwargs (log, s) = (res, (log', s'))"
  shows "apply_to_collection data dtype f args kwargs s = (res, s') \<and>
         (\<exists>n. log' = log @ take n (leaves dtype data)) \<and>
         (\<forall>r. res = Inr r \<longrightarrow> log' = log @ leaves dtype data) \<and>
         (\<forall>r. res = Inr r \<longrightarrow> distinct_keys dtype data \<longrightarrow>
            (\<forall>v t. isinstance v dtype \<longrightarrow> fst (f v args kwargs t) = Inr (h v)) \<longrightarrow>
            r = map_leaves dtype h data)"
proof (intro conjI allI impI)
  show run: "apply_to_collection data dtype f args kwargs s = (res, s')"
    using logged_run [OF assms] .
  show "\<exists>n. log' = log @ take n (leaves dtype data)"
    using logged_log [OF assms] by simp
  show "log' = log @ leaves dtype data" if "res = Inr r" for r
    using logged_log [OF assms] that by simp
  show "r = map_leaves dtype h data"
    if r: "res = Inr r" and keys: "distinct_keys dtype data"
      and h: "\<forall>v t. isinstance v dtype \<longrightarrow> fst (f v args kwargs t) = Inr (h v)" for r
  proof -
    have acc: "constructors_accept dtype data"
      using run r by (auto intro: success_constructors_accept)
    have "f v args kwargs t = (Inr (h v), snd (f v args kwargs t))" if "isinstance v dtype" for v t
      using h that by (metis prod.collapse)
    then have "apply_to_collection data dtype f args kwargs s
        = (Inr (map_leaves dtype h data),
           foldl (\<lambda>t v. snd (f v args kwargs t)) s (leaves dtype data))"
      using acc keys by (intro apply_to_collection_total) simp_all
    then show ?thesis using run r by simp
  qed
qed

theorem function_applied_once_per_leaf_witness:
  "apply_to_collection (SeqV Clist [IntV 1, SeqV Ctuple [IntV 2, StrV ''s'']]) [Tint]
       (logged (pure_function (\<lambda>v. SeqV Clist [v, v]))) [] [] ([], ())
     = (Inr (SeqV Clist [SeqV Clist [IntV 1, IntV 1],
                         SeqV Ctuple [SeqV Clist [IntV 2, IntV 2], StrV ''s'']]),
        ([IntV 1, IntV 2], ()))"
proof -
  let ?data = "SeqV Clist [IntV 1, SeqV Ctuple [IntV 2, StrV ''s'']]"
  let ?h = "\<lambda>v. SeqV Clist [v, v]"
  obtain res log' where run:
    "apply_to_collection ?data [Tint] (logged (pure_function ?h)) [] [] ([], ()) = (res, (log', ()))"
    by (cases "apply_to_collection ?data [Tint] (logged (pure_function ?h)) [] [] ([], ())") auto
  have ok: "\<exists>r. res = Inr r"
    using run by (auto simp: py_eval logged_def pure_function_def)
  then obtain r where r: "res = Inr r" by blast
  have "log' = [] @ leaves [Tint] ?data" "r = map_leaves [Tint] ?h ?data"
    using function_applied_once_per_leaf [OF run, of ?h] r
    by (simp_all add: isinstance_def pure_function_def py_return_def)
  then show ?thesis using run r by (simp add: isinstance_def)
qed

end
